theory Spec2Isabelle
  imports Complex_Main "HOL-Library.AList" "HOL-Library.Sublist"
begin

section \<open>Data model of the race module\<close>

text \<open>
  The race module (\<open>race.js\<close>) reconstructs a dense timeline of ranked frames from
  sparse daily buckets and plays it back. A bucket is one row
  \<open>{date, valueWithoutEarnings, cumulativeEarningsWei, operator: {id}}\<close> of the remote
  data set; \<open>date\<close> is the number obtained by \<open>parseInt(b.date)\<close>. Metric
  values are strings; JavaScript treats the empty string (and a missing field) as falsy,
  which is all \<open>processTimeline\<close> asks of them.
\<close>

datatype error = NoDataFound | TypeError | HistoryError

record bucket =
  date :: int
  operator_id :: string
  valueWithoutEarnings :: string
  cumulativeEarningsWei :: string


text \<open>An entry of \<open>operatorMetaMap\<close>: \<open>{name, color}\<close>.\<close>

record op_meta =
  name :: string
  color :: string

text \<open>
  A ranked entry \<open>{id, valueWei, floatValue, ...operatorMetaMap[id]}\<close>: the spread adds
  the two fields of the metadata record.
\<close>

record entry = op_meta +
  entry_id :: string
  valueWei :: string
  floatValue :: real

text \<open>
  A frame \<open>{date, formattedDate, stake, earnings}\<close>. \<open>formattedDate\<close> is the locale
  rendering \<open>formatDate(date)\<close> of the date and carries no further data.
\<close>

record frame =
  frame_date :: int
  rankingsStake :: "entry list"
  rankingsEarnings :: "entry list"

datatype metric = Stake | Earnings


section \<open>The nice-scale step\<close>

text \<open>
  \<open>calculateNiceStep\<close> works on JavaScript numbers. The zero test and the fallback
  involve no arithmetic and are modelled exactly. Away from zero the model computes over
  the reals, which idealises the source's double arithmetic: the source rounds each
  quotient and takes \<open>Math.log10\<close> and \<open>Math.pow\<close> as the engine approximates
  them, so its result can differ from the model's where a quotient lies next to a
  threshold of \<open>snap\<close> or underflows. \<open>None\<close> stands for the result \<open>NaN\<close>, which
  the source produces for a negative argument.
\<close>

definition snap :: "real \<Rightarrow> real" where
  "snap normalizedStep =
     (if normalizedStep < 1.5 then 1
      else if normalizedStep < 3 then 2
      else if normalizedStep < 7 then 5
      else 10)"

definition magnitude :: "real \<Rightarrow> real" where
  "magnitude roughStep = 10 powi \<lfloor>log 10 roughStep\<rfloor>"

definition calculateNiceStep :: "real \<Rightarrow> real option" where
  "calculateNiceStep maxValData =
     (if maxValData = 0 then Some 1000
      else if maxValData < 0 then None
      else
        (let roughStep = maxValData / 16;
             normalizedStep = roughStep / magnitude roughStep
         in Some (snap normalizedStep * magnitude roughStep)))"

text \<open>
  The step \<open>renderFrame\<close> uses for a ranking list: the first (largest) \<open>floatValue\<close>,
  or \<open>1\<close> for an empty list, scaled from wei by \<open>1e18\<close>.
\<close>

definition scaleStepData :: "entry list \<Rightarrow> real option" where
  "scaleStepData currentRankings =
     (let maxValWei = (case currentRankings of [] \<Rightarrow> 1 | e # _ \<Rightarrow> floatValue e);
          maxValData = maxValWei / 10 ^ 18
      in calculateNiceStep maxValData)"

section \<open>The timeline reconstructor\<close>
















text \<open>
  \<open>.sort((a,b) => b.floatValue - a.floatValue)\<close>: \<open>Array.prototype.sort\<close> is stable, so
  the result is the stable arrangement in descending order of \<open>floatValue\<close>. An element
  is inserted in front of the first element that is not larger than it.
\<close>

fun insort_desc :: "entry \<Rightarrow> entry list \<Rightarrow> entry list" where
  "insort_desc x [] = [x]"
| "insort_desc x (y # ys) =
     (if floatValue y \<le> floatValue x then x # y # ys else y # insort_desc x ys)"

definition sort_desc :: "entry list \<Rightarrow> entry list" where
  "sort_desc es = foldr insort_desc es []"








subsection \<open>Forward fill, as the specification words it\<close>




subsection \<open>Forward fill of the metrics that a day's entry reports\<close>




subsection \<open>Auxiliary notions for the proofs\<close>




subsection \<open>The example of the specification\<close>










section \<open>The history aggregator\<close>

text \<open>
  The pagination loop of \<open>fetchData\<close>. The remote query is a parameter: given the cursor
  \<open>since\<close> it answers with an error payload (\<open>None\<close>) or a page of buckets. The loop
  may run forever, so its result is optional: \<open>None\<close> means that it never returns.
\<close>

definition START_DATE :: int where
  "START_DATE = 1700870400"

definition PAGE_SIZE :: nat where
  "PAGE_SIZE = 1000"

partial_function (option) fetchLoop ::
  "(int \<Rightarrow> bucket list option) \<Rightarrow> int \<Rightarrow> bucket list \<Rightarrow> (error + bucket list) option" where
  "fetchLoop query lastDate allBuckets =
     (case query lastDate of
        None \<Rightarrow> Some (Inl HistoryError)
      | Some buckets \<Rightarrow>
          if length buckets = 0 then Some (Inr allBuckets)
          else if length buckets < PAGE_SIZE then Some (Inr (allBuckets @ buckets))
          else fetchLoop query (date (last buckets)) (allBuckets @ buckets))"

text \<open>
  The pages the loop reads from a cursor on: full pages, each moving the cursor to its
  last date, closed by the first page with fewer rows than the page size.
\<close>

inductive paged :: "(int \<Rightarrow> bucket list option) \<Rightarrow> int \<Rightarrow> bucket list list \<Rightarrow> bool" where
  short: "query c = Some p \<Longrightarrow> length p < PAGE_SIZE \<Longrightarrow> paged query c [p]"
| full: "query c = Some p \<Longrightarrow> \<not> length p < PAGE_SIZE \<Longrightarrow> paged query (date (last p)) ps
         \<Longrightarrow> paged query c (p # ps)"

text \<open>The loop reaches an error payload after reading full pages only.\<close>

inductive aborted :: "(int \<Rightarrow> bucket list option) \<Rightarrow> int \<Rightarrow> bool" where
  now: "query c = None \<Longrightarrow> aborted query c"
| later: "query c = Some p \<Longrightarrow> \<not> length p < PAGE_SIZE \<Longrightarrow> aborted query (date (last p))
          \<Longrightarrow> aborted query c"

text \<open>A remote that always has a further full page, one day after the cursor.\<close>

definition endless_query :: "int \<Rightarrow> bucket list option" where
  "endless_query since =
     Some (replicate 1000
       \<lparr>date = since + 86400, operator_id = ''0xab12'', valueWithoutEarnings = ''1'',
        cumulativeEarningsWei = ''0''\<rparr>)"

text \<open>A remote with one full page on the first day and a single row on the second.\<close>

definition two_page_query :: "int \<Rightarrow> bucket list option" where
  "two_page_query since =
     (if since < 1700956800
      then Some (replicate 1000
        \<lparr>date = 1700956800, operator_id = ''0xa1'', valueWithoutEarnings = ''100'',
         cumulativeEarningsWei = ''5''\<rparr>)
      else if since < 1701043200
      then Some [\<lparr>date = 1701043200, operator_id = ''0xb2'', valueWithoutEarnings = ''50'',
                 cumulativeEarningsWei = ''5''\<rparr>]
      else Some [])"

section \<open>The playback scheduler\<close>

text \<open>
  The fields of \<open>RaceLogic.state\<close> that playback reads and writes, together with the
  part of the environment the scheduler acts on: the timers that \<open>setTimeout\<close> has
  registered and that have neither fired nor been cleared (\<open>pending\<close>, each with its
  delay), the next fresh timer handle (handles are positive, as in a browser), and the log
  of frames that \<open>renderFrame\<close> has drawn (index and metric).
\<close>

record race_state =
  timelineData :: "frame list"
  currentIndex :: int
  isPlaying :: bool
  playbackSpeed :: int
  activeMetric :: metric
  filterDeprecated :: bool
  timer :: "nat option"
  pending :: "(nat \<times> int) list"
  nextTimer :: nat
  rendered :: "(int \<times> metric) list"

definition initial_state :: race_state where
  "initial_state =
     \<lparr>timelineData = [], currentIndex = 0, isPlaying = False, playbackSpeed = 100,
      activeMetric = Stake, filterDeprecated = False, timer = None, pending = [],
      nextTimer = 1, rendered = []\<rparr>"

text \<open>\<open>timelineData[index]\<close>: \<open>undefined\<close> outside the array.\<close>

definition frame_at :: "frame list \<Rightarrow> int \<Rightarrow> frame option" where
  "frame_at fs index =
     (if 0 \<le> index \<and> index < int (length fs) then Some (fs ! nat index) else None)"

definition renderFrame :: "int \<Rightarrow> race_state \<Rightarrow> race_state" where
  "renderFrame index s =
     (case frame_at (timelineData s) index of
        None \<Rightarrow> s
      | Some fr \<Rightarrow> s\<lparr>rendered := rendered s @ [(index, activeMetric s)]\<rparr>)"

definition setTimeout :: "int \<Rightarrow> race_state \<Rightarrow> race_state" where
  "setTimeout delay s =
     s\<lparr>timer := Some (nextTimer s),
       pending := pending s @ [(nextTimer s, delay)],
       nextTimer := Suc (nextTimer s)\<rparr>"

text \<open>\<open>clearTimeout(handle)\<close>; a \<open>null\<close> handle clears nothing.\<close>

definition clearTimeout :: "nat option \<Rightarrow> race_state \<Rightarrow> race_state" where
  "clearTimeout h s = s\<lparr>pending := filter (\<lambda>p. Some (fst p) \<noteq> h) (pending s)\<rparr>"

definition at_end :: "race_state \<Rightarrow> bool" where
  "at_end s = (currentIndex s \<ge> int (length (timelineData s)) - 1)"

definition loop :: "race_state \<Rightarrow> race_state" where
  "loop s =
     (if \<not> isPlaying s then s
      else
        (let s1 = renderFrame (currentIndex s) s
         in if at_end s1 then s1\<lparr>isPlaying := False\<rparr>
            else setTimeout (playbackSpeed s1) (s1\<lparr>currentIndex := currentIndex s1 + 1\<rparr>)))"

definition togglePlay :: "race_state \<Rightarrow> race_state" where
  "togglePlay s =
     (let s1 = s\<lparr>isPlaying := \<not> isPlaying s\<rparr>
      in if isPlaying s1
         then loop (if at_end s1 then s1\<lparr>currentIndex := 0\<rparr> else s1)
         else clearTimeout (timer s1) s1)"

text \<open>The event loop delivers a pending timer: it leaves the pending set and runs \<open>loop\<close>.\<close>

definition timerFires :: "nat \<Rightarrow> race_state \<Rightarrow> race_state" where
  "timerFires h s =
     (if h \<in> fst ` set (pending s)
      then loop (s\<lparr>pending := filter (\<lambda>p. fst p \<noteq> h) (pending s)\<rparr>)
      else s)"

text \<open>The slider's \<open>input\<close> handler, with \<open>parseInt(e.target.value)\<close> as its argument.\<close>

definition sliderInput :: "int \<Rightarrow> race_state \<Rightarrow> race_state" where
  "sliderInput v s = renderFrame v (s\<lparr>isPlaying := False, currentIndex := v\<rparr>)"

definition stop :: "race_state \<Rightarrow> race_state" where
  "stop s =
     (let s1 = s\<lparr>isPlaying := False\<rparr>
      in case timer s1 of
           None \<Rightarrow> s1
         | Some h \<Rightarrow> (clearTimeout (Some h) s1)\<lparr>timer := None\<rparr>)"

definition setMetric :: "metric \<Rightarrow> race_state \<Rightarrow> race_state" where
  "setMetric m s = (let s1 = s\<lparr>activeMetric := m\<rparr> in renderFrame (currentIndex s1) s1)"

definition toggleSpeed :: "race_state \<Rightarrow> race_state" where
  "toggleSpeed s = s\<lparr>playbackSpeed := (if playbackSpeed s = 100 then 30 else 100)\<rparr>"

text \<open>
  \<open>resetUI\<close>, and the tail of \<open>fetchData\<close> once \<open>processTimeline\<close> has stored the frames
  \<open>fs\<close>: the index moves to the last frame and that frame is drawn.
\<close>

definition resetUI :: "race_state \<Rightarrow> race_state" where
  "resetUI s = s\<lparr>currentIndex := 0, isPlaying := False, timelineData := []\<rparr>"

definition loaded :: "frame list \<Rightarrow> race_state \<Rightarrow> race_state" where
  "loaded fs s =
     (let s1 = s\<lparr>timelineData := fs\<rparr>;
          s2 = (if length fs > 0 then s1\<lparr>currentIndex := int (length fs) - 1\<rparr> else s1)
      in renderFrame (currentIndex s2) s2)"

text \<open>
  \<open>toggleFilter\<close>: the flag flips at once; the rebuilt frames \<open>fs\<close> replace the timeline
  in a later callback, which redraws the current index.
\<close>

definition toggleFilter :: "race_state \<Rightarrow> race_state" where
  "toggleFilter s = s\<lparr>filterDeprecated := \<not> filterDeprecated s\<rparr>"

definition refiltered :: "frame list \<Rightarrow> race_state \<Rightarrow> race_state" where
  "refiltered fs s = (let s1 = s\<lparr>timelineData := fs\<rparr> in renderFrame (currentIndex s1) s1)"

text \<open>The user and timer events of a session, and the states they can reach.\<close>

datatype event =
    TogglePlay | TimerFires nat | SliderInput int | Stop | SetMetric metric | ToggleSpeed
  | ResetUI | Loaded "frame list" | ToggleFilter | Refiltered "frame list"

fun step :: "event \<Rightarrow> race_state \<Rightarrow> race_state" where
  "step TogglePlay s = togglePlay s"
| "step (TimerFires h) s = timerFires h s"
| "step (SliderInput v) s = sliderInput v s"
| "step Stop s = stop s"
| "step (SetMetric m) s = setMetric m s"
| "step ToggleSpeed s = toggleSpeed s"
| "step ResetUI s = resetUI s"
| "step (Loaded fs) s = loaded fs s"
| "step ToggleFilter s = toggleFilter s"
| "step (Refiltered fs) s = refiltered fs s"

definition run :: "event list \<Rightarrow> race_state \<Rightarrow> race_state" where
  "run evs s = foldl (\<lambda>st ev. step ev st) s evs"

inductive reachable :: "race_state \<Rightarrow> bool" where
  init: "reachable initial_state"
| step: "reachable s \<Longrightarrow> reachable (step ev s)"

text \<open>A six-frame timeline and the session that has loaded it, for concrete runs.\<close>

definition example_timeline :: "frame list" where
  "example_timeline =
     map (\<lambda>d. \<lparr>frame_date = d, rankingsStake = [], rankingsEarnings = []\<rparr>)
       [86400, 172800, 259200, 345600, 432000, 518400]"

definition example_session :: race_state where
  "example_session = run [Loaded example_timeline] initial_state"

section \<open>Properties of the timeline reconstructor\<close>

subsection \<open>Dates, sorting and the shape of a frame\<close>






lemma set_insort_desc [simp]: "set (insort_desc x xs) = insert x (set xs)"
  by (induction xs) auto

lemma length_insort_desc [simp]: "length (insort_desc x xs) = Suc (length xs)"
  by (induction xs) auto



lemma sort_desc_Cons: "sort_desc (x # xs) = insort_desc x (sort_desc xs)"
  by (simp add: sort_desc_def)

lemma sort_desc_Nil: "sort_desc [] = []"
  by (simp add: sort_desc_def)

lemma length_sort_desc [simp]: "length (sort_desc xs) = length xs"
  by (induction xs) (simp_all add: sort_desc_Cons sort_desc_Nil)

lemma set_sort_desc [simp]: "set (sort_desc xs) = set xs"
  by (induction xs) (simp_all add: sort_desc_Cons sort_desc_Nil)











subsection \<open>The table of last-known values\<close>





















subsection \<open>When the reconstruction succeeds\<close>











subsection \<open>The frames\<close>










section \<open>Properties of the history aggregator\<close>

lemma fetchLoop_bounded:
  assumes bound: "\<forall>c p. query c = Some p \<longrightarrow> (\<forall>b\<in>set p. c < date b \<and> date b \<le> B)"
  shows "\<exists>r. fetchLoop query c acc = Some r
           \<and> (case r of
                 Inl e \<Rightarrow> e = HistoryError \<and> aborted query c
               | Inr rows \<Rightarrow> \<exists>ps. paged query c ps \<and> rows = acc @ concat ps)"
proof (induction "nat (B - c)" arbitrary: c acc rule: less_induct)
  case less
  show ?case
  proof (cases "query c")
    case None
    then have "aborted query c" by (rule aborted.now)
    moreover have "fetchLoop query c acc = Some (Inl HistoryError)"
      using None by (subst fetchLoop.simps) simp
    ultimately show ?thesis by simp
  next
    case (Some p)
    show ?thesis
    proof (cases "length p < PAGE_SIZE")
      case True
      with Some have "paged query c [p]" by (rule paged.short)
      then have "\<exists>ps. paged query c ps \<and> acc @ p = acc @ concat ps"
        by (intro exI [of _ "[p]"]) simp
      moreover have "fetchLoop query c acc = Some (Inr (acc @ p))"
        using Some True by (subst fetchLoop.simps) simp
      ultimately show ?thesis by simp
    next
      case False
      then have ne: "p \<noteq> []" by (auto simp: PAGE_SIZE_def)
      then have "last p \<in> set p" by simp
      with bound Some have lp: "c < date (last p)" "date (last p) \<le> B" by blast+
      then have "nat (B - date (last p)) < nat (B - c)" by simp
      from less [OF this, of "acc @ p"] obtain r where
        r: "fetchLoop query (date (last p)) (acc @ p) = Some r"
        and c: "case r of
                 Inl e \<Rightarrow> e = HistoryError \<and> aborted query (date (last p))
               | Inr rows \<Rightarrow> \<exists>ps. paged query (date (last p)) ps \<and> rows = (acc @ p) @ concat ps"
        by blast
      have f: "fetchLoop query c acc = Some r"
        using Some False ne r by (subst fetchLoop.simps) simp
      show ?thesis
      proof (cases r)
        case (Inl e)
        with c have e: "e = HistoryError" and a: "aborted query (date (last p))" by simp_all
        from Some False a have "aborted query c" by (rule aborted.later)
        with e f Inl show ?thesis by simp
      next
        case (Inr rows)
        with c obtain ps where ps: "paged query (date (last p)) ps" "rows = (acc @ p) @ concat ps"
          by auto
        from Some False ps(1) have "paged query c (p # ps)" by (rule paged.full)
        moreover have "rows = acc @ concat (p # ps)" using ps(2) by simp
        ultimately have ex: "\<exists>ps. paged query c ps \<and> rows = acc @ concat ps" by blast
        from f Inr have "fetchLoop query c acc = Some (Inr rows)" by (simp only:)
        with ex show ?thesis by simp
      qed
    qed
  qed
qed

lemma aborted_None: "aborted query c \<Longrightarrow> \<exists>c'. query c' = None"
  by (induction rule: aborted.induct) blast+

lemma fetchLoop_endless: "fetchLoop endless_query c acc = None"
proof -
  have "q \<noteq> endless_query" if "fetchLoop q c acc = Some y" for q y
  proof (rule fetchLoop.raw_induct [where P = "\<lambda>q c acc y. q \<noteq> endless_query"])
    fix f :: "(int \<Rightarrow> bucket list option) \<Rightarrow> int \<Rightarrow> bucket list \<Rightarrow> (error + bucket list) option"
      and query lastDate allBuckets and r :: "error + bucket list"
    assume IH: "\<And>q c acc y. f q c acc = Some y \<Longrightarrow> q \<noteq> endless_query"
    assume eq: "(case query lastDate of
        None \<Rightarrow> Some (Inl HistoryError)
      | Some buckets \<Rightarrow>
          if length buckets = 0 then Some (Inr allBuckets)
          else if length buckets < PAGE_SIZE then Some (Inr (allBuckets @ buckets))
          else f query (date (last buckets)) (allBuckets @ buckets)) = Some r"
    show "query \<noteq> endless_query"
    proof
      assume "query = endless_query"
      with eq have "f endless_query (lastDate + 86400)
          (allBuckets @ the (endless_query lastDate)) = Some r"
        by (simp add: endless_query_def PAGE_SIZE_def)
      with IH show False by blast
    qed
  next
    show "fetchLoop q c acc = Some y" by (rule that)
  qed
  then show ?thesis by (cases "fetchLoop endless_query c acc") auto
qed

text \<open>
  Claim C8, as stated, fails for a remote that never runs out of rows: every page of
  \<open>endless_query\<close> is in ascending order and lies strictly after the cursor, and the
  loop never returns.
\<close>

theorem pagination_endless:
  "fetchLoop endless_query START_DATE [] = None
   \<and> \<not> (\<forall>query.
          (\<forall>c p. query c = Some p \<longrightarrow> sorted (map date p) \<and> (\<forall>b\<in>set p. c < date b))
          \<longrightarrow> (\<exists>r. fetchLoop query START_DATE [] = Some r))"
proof
  show none: "fetchLoop endless_query START_DATE [] = None"
    by (rule fetchLoop_endless)
  show "\<not> (\<forall>query.
          (\<forall>c p. query c = Some p \<longrightarrow> sorted (map date p) \<and> (\<forall>b\<in>set p. c < date b))
          \<longrightarrow> (\<exists>r. fetchLoop query START_DATE [] = Some r))"
  proof
    assume a: "\<forall>query.
          (\<forall>c p. query c = Some p \<longrightarrow> sorted (map date p) \<and> (\<forall>b\<in>set p. c < date b))
          \<longrightarrow> (\<exists>r. fetchLoop query START_DATE [] = Some r)"
    have "\<forall>c p. endless_query c = Some p \<longrightarrow> sorted (map date p) \<and> (\<forall>b\<in>set p. c < date b)"
      by (auto simp: endless_query_def)
    with a have "\<exists>r. fetchLoop endless_query START_DATE [] = Some r" by blast
    with none show False by simp
  qed
qed

text \<open>
  Claim C8, amended. When every row of every page lies strictly after the cursor and the
  dates of the remote are bounded, the loop returns. It reads full pages, moving the cursor
  to the last date of each, and stops at the first page with fewer rows than the page size
  (possibly none), returning the pages concatenated in the order read; it fails with
  \<open>History error\<close> only when one of the pages it asks for is an error payload. A remote
  that sends no error payload therefore always yields the concatenated pages.
\<close>

theorem pagination_terminates:
  assumes "\<forall>c p. query c = Some p \<longrightarrow> (\<forall>b\<in>set p. c < date b \<and> date b \<le> B)"
  shows "\<exists>r. fetchLoop query START_DATE [] = Some r
           \<and> (case r of
                 Inl e \<Rightarrow> e = HistoryError \<and> aborted query START_DATE
               | Inr rows \<Rightarrow> \<exists>ps. paged query START_DATE ps \<and> rows = concat ps)
           \<and> ((\<forall>c. query c \<noteq> None) \<longrightarrow>
                (\<exists>ps. paged query START_DATE ps \<and> r = Inr (concat ps)))"
proof -
  from fetchLoop_bounded [OF assms, of START_DATE "[]"] obtain r where
    f: "fetchLoop query START_DATE [] = Some r"
    and c: "case r of
              Inl e \<Rightarrow> e = HistoryError \<and> aborted query START_DATE
            | Inr rows \<Rightarrow> \<exists>ps. paged query START_DATE ps \<and> rows = [] @ concat ps"
    by blast
  have c1: "case r of
              Inl e \<Rightarrow> e = HistoryError \<and> aborted query START_DATE
            | Inr rows \<Rightarrow> \<exists>ps. paged query START_DATE ps \<and> rows = concat ps"
    using c by (cases r) simp_all
  have c2: "(\<forall>c. query c \<noteq> None) \<longrightarrow> (\<exists>ps. paged query START_DATE ps \<and> r = Inr (concat ps))"
  proof
    assume n: "\<forall>c. query c \<noteq> None"
    show "\<exists>ps. paged query START_DATE ps \<and> r = Inr (concat ps)"
    proof (cases r)
      case (Inl e)
      with c1 have "aborted query START_DATE" by simp
      then have "\<exists>c'. query c' = None" by (rule aborted_None)
      with n show ?thesis by blast
    next
      case (Inr rows)
      with c1 show ?thesis by auto
    qed
  qed
  from f c1 c2 show ?thesis by blast
qed

lemma two_page_fetch:
  "fetchLoop two_page_query START_DATE [] =
     Some (Inr (replicate 1000
        \<lparr>date = 1700956800, operator_id = ''0xa1'', valueWithoutEarnings = ''100'',
         cumulativeEarningsWei = ''5''\<rparr>
       @ [\<lparr>date = 1701043200, operator_id = ''0xb2'', valueWithoutEarnings = ''50'',
           cumulativeEarningsWei = ''5''\<rparr>]))"
  apply (subst fetchLoop.simps)
  apply (simp add: two_page_query_def START_DATE_def PAGE_SIZE_def)
  apply (subst fetchLoop.simps)
  apply (simp add: two_page_query_def PAGE_SIZE_def)
  done

theorem pagination_terminates_witness:
  "fetchLoop two_page_query START_DATE [] =
     Some (Inr (replicate 1000
        \<lparr>date = 1700956800, operator_id = ''0xa1'', valueWithoutEarnings = ''100'',
         cumulativeEarningsWei = ''5''\<rparr>
       @ [\<lparr>date = 1701043200, operator_id = ''0xb2'', valueWithoutEarnings = ''50'',
           cumulativeEarningsWei = ''5''\<rparr>]))
   \<and> (\<exists>ps. paged two_page_query START_DATE ps
         \<and> replicate 1000
              \<lparr>date = 1700956800, operator_id = ''0xa1'', valueWithoutEarnings = ''100'',
               cumulativeEarningsWei = ''5''\<rparr>
            @ [\<lparr>date = 1701043200, operator_id = ''0xb2'', valueWithoutEarnings = ''50'',
                cumulativeEarningsWei = ''5''\<rparr>] = concat ps)"
proof -
  have b: "\<forall>c p. two_page_query c = Some p \<longrightarrow> (\<forall>b\<in>set p. c < date b \<and> date b \<le> 1701043200)"
    by (auto simp: two_page_query_def split: if_splits)
  have n: "\<forall>c. two_page_query c \<noteq> None"
    by (simp add: two_page_query_def)
  from pagination_terminates [OF b] n obtain r ps where
    "fetchLoop two_page_query START_DATE [] = Some r"
    and "paged two_page_query START_DATE ps" and "r = Inr (concat ps)"
    by blast
  with two_page_fetch show ?thesis by auto
qed

section \<open>Properties of the nice-scale step\<close>

text \<open>
  Claim C9. For the maximum 0 the step is the fallback 1000, and so is the step
  \<open>renderFrame\<close> computes for a ranking list whose first entry has value 0.
\<close>

theorem niceStep_zero:
  "calculateNiceStep 0 = Some 1000
   \<and> (floatValue e = 0 \<longrightarrow> scaleStepData (e # es) = Some 1000)"
  by (simp add: calculateNiceStep_def scaleStepData_def)

theorem niceStep_zero_witness:
  "scaleStepData [\<lparr>name = ''Operator 0xab12'', color = ''bg-red-600'', entry_id = ''0xab12'',
      valueWei = ''0'', floatValue = 0\<rparr>] = Some 1000"
  using niceStep_zero [of "\<lparr>name = ''Operator 0xab12'', color = ''bg-red-600'',
      entry_id = ''0xab12'', valueWei = ''0'', floatValue = 0\<rparr>" "[]"]
  by simp

section \<open>Properties of the playback scheduler\<close>

lemma timelineData_renderFrame [simp]: "timelineData (renderFrame i s) = timelineData s"
  by (simp add: renderFrame_def split: option.splits)

lemma currentIndex_renderFrame [simp]: "currentIndex (renderFrame i s) = currentIndex s"
  by (simp add: renderFrame_def split: option.splits)

lemma at_end_renderFrame [simp]: "at_end (renderFrame i s) = at_end s"
  by (simp add: at_end_def)

lemma renderFrame_in_range:
  "0 \<le> i \<Longrightarrow> i < int (length (timelineData s)) \<Longrightarrow>
   renderFrame i s = s\<lparr>rendered := rendered s @ [(i, activeMetric s)]\<rparr>"
  by (simp add: renderFrame_def frame_at_def)

lemma renderFrame_out_of_range:
  "i < 0 \<or> int (length (timelineData s)) \<le> i \<Longrightarrow> renderFrame i s = s"
  by (auto simp: renderFrame_def frame_at_def)

lemma example_session_eq:
  "example_session =
     \<lparr>timelineData = example_timeline, currentIndex = 5, isPlaying = False,
      playbackSpeed = 100, activeMetric = Stake, filterDeprecated = False, timer = None,
      pending = [], nextTimer = 1, rendered = [(5, Stake)]\<rparr>"
  by (simp add: example_session_def run_def loaded_def initial_state_def renderFrame_def
      frame_at_def example_timeline_def)

text \<open>
  Claim C5. Starting playback while the index is at or past the last frame first sets
  the index to 0: with two or more frames, frame 0 is drawn, the index moves to 1 and one
  tick is scheduled after the current speed; with a single frame, frame 0 is drawn and
  playback stops at once; with no frame, nothing is drawn and playback stops. A tick that
  fires while playing at the last frame draws that frame and stops: the index stays, and no
  timer is registered.
\<close>

theorem play_restarts_tick_stops:
  "(\<not> isPlaying s \<and> at_end s \<and> 2 \<le> length (timelineData s) \<longrightarrow>
      togglePlay s =
        s\<lparr>isPlaying := True, currentIndex := 1,
          rendered := rendered s @ [(0, activeMetric s)],
          timer := Some (nextTimer s),
          pending := pending s @ [(nextTimer s, playbackSpeed s)],
          nextTimer := Suc (nextTimer s)\<rparr>)
   \<and> (\<not> isPlaying s \<and> at_end s \<and> length (timelineData s) = 1 \<longrightarrow>
      togglePlay s =
        s\<lparr>isPlaying := False, currentIndex := 0,
          rendered := rendered s @ [(0, activeMetric s)]\<rparr>)
   \<and> (\<not> isPlaying s \<and> at_end s \<and> timelineData s = [] \<longrightarrow>
      togglePlay s = s\<lparr>isPlaying := False, currentIndex := 0\<rparr>)
   \<and> (isPlaying s \<and> timelineData s \<noteq> [] \<and> currentIndex s = int (length (timelineData s)) - 1
        \<and> h \<in> fst ` set (pending s) \<longrightarrow>
      timerFires h s =
        s\<lparr>isPlaying := False,
          rendered := rendered s @ [(currentIndex s, activeMetric s)],
          pending := filter (\<lambda>p. fst p \<noteq> h) (pending s)\<rparr>)"
proof (intro conjI impI)
  assume a: "\<not> isPlaying s \<and> at_end s \<and> 2 \<le> length (timelineData s)"
  let ?s2 = "s\<lparr>isPlaying := True, currentIndex := 0\<rparr>"
  have r: "renderFrame 0 ?s2 = ?s2\<lparr>rendered := rendered ?s2 @ [(0, activeMetric ?s2)]\<rparr>"
    using a by (intro renderFrame_in_range) auto
  have "togglePlay s = loop ?s2"
    using a by (simp add: togglePlay_def Let_def at_end_def)
  also have "\<dots> = setTimeout (playbackSpeed s)
      (?s2\<lparr>rendered := rendered s @ [(0, activeMetric s)], currentIndex := 1\<rparr>)"
    using a by (simp add: loop_def Let_def r) (simp add: at_end_def)
  finally show "togglePlay s =
        s\<lparr>isPlaying := True, currentIndex := 1,
          rendered := rendered s @ [(0, activeMetric s)],
          timer := Some (nextTimer s),
          pending := pending s @ [(nextTimer s, playbackSpeed s)],
          nextTimer := Suc (nextTimer s)\<rparr>"
    by (simp add: setTimeout_def)
next
  assume a: "\<not> isPlaying s \<and> at_end s \<and> length (timelineData s) = 1"
  let ?s2 = "s\<lparr>isPlaying := True, currentIndex := 0\<rparr>"
  have r: "renderFrame 0 ?s2 = ?s2\<lparr>rendered := rendered ?s2 @ [(0, activeMetric ?s2)]\<rparr>"
    using a by (intro renderFrame_in_range) auto
  have "togglePlay s = loop ?s2"
    using a by (simp add: togglePlay_def Let_def at_end_def)
  also have "\<dots> = s\<lparr>isPlaying := False, currentIndex := 0,
          rendered := rendered s @ [(0, activeMetric s)]\<rparr>"
    using a by (simp add: loop_def Let_def r) (simp add: at_end_def)
  finally show "togglePlay s =
        s\<lparr>isPlaying := False, currentIndex := 0,
          rendered := rendered s @ [(0, activeMetric s)]\<rparr>" .
next
  assume a: "\<not> isPlaying s \<and> at_end s \<and> timelineData s = []"
  let ?s2 = "s\<lparr>isPlaying := True, currentIndex := 0\<rparr>"
  have r: "renderFrame 0 ?s2 = ?s2"
    using a by (intro renderFrame_out_of_range) auto
  have "togglePlay s = loop ?s2"
    using a by (simp add: togglePlay_def Let_def at_end_def)
  also have "\<dots> = s\<lparr>isPlaying := False, currentIndex := 0\<rparr>"
    using a by (simp add: loop_def Let_def r) (simp add: at_end_def)
  finally show "togglePlay s = s\<lparr>isPlaying := False, currentIndex := 0\<rparr>" .
next
  assume a: "isPlaying s \<and> timelineData s \<noteq> []
      \<and> currentIndex s = int (length (timelineData s)) - 1 \<and> h \<in> fst ` set (pending s)"
  let ?s1 = "s\<lparr>pending := filter (\<lambda>p. fst p \<noteq> h) (pending s)\<rparr>"
  have r: "renderFrame (currentIndex s) ?s1
      = ?s1\<lparr>rendered := rendered ?s1 @ [(currentIndex s, activeMetric ?s1)]\<rparr>"
    using a by (intro renderFrame_in_range) auto
  have e: "int (length (timelineData s)) - 1 \<le> currentIndex s" and p: "isPlaying s"
    using a by simp_all
  have "timerFires h s = loop ?s1"
    using a by (simp add: timerFires_def)
  also have "\<dots> = s\<lparr>isPlaying := False,
          rendered := rendered s @ [(currentIndex s, activeMetric s)],
          pending := filter (\<lambda>p. fst p \<noteq> h) (pending s)\<rparr>"
    using e p by (simp add: loop_def Let_def r at_end_def)
  finally show "timerFires h s =
        s\<lparr>isPlaying := False,
          rendered := rendered s @ [(currentIndex s, activeMetric s)],
          pending := filter (\<lambda>p. fst p \<noteq> h) (pending s)\<rparr>" .
qed

lemma example_playing_eq:
  "run [SliderInput 4, TogglePlay] example_session =
     \<lparr>timelineData = example_timeline, currentIndex = 5, isPlaying = True,
      playbackSpeed = 100, activeMetric = Stake, filterDeprecated = False, timer = Some 1,
      pending = [(1, 100)], nextTimer = 2,
      rendered = [(5, Stake), (4, Stake), (4, Stake)]\<rparr>"
  by (simp add: example_session_eq run_def sliderInput_def togglePlay_def loop_def
      setTimeout_def at_end_def renderFrame_def frame_at_def Let_def example_timeline_def)

theorem play_restarts_tick_stops_witness:
  "togglePlay example_session =
     example_session\<lparr>isPlaying := True, currentIndex := 1,
       rendered := [(5, Stake), (0, Stake)], timer := Some 1, pending := [(1, 100)],
       nextTimer := 2\<rparr>
   \<and> timerFires 1 (run [SliderInput 4, TogglePlay] example_session) =
     (run [SliderInput 4, TogglePlay] example_session)\<lparr>isPlaying := False,
       rendered := [(5, Stake), (4, Stake), (4, Stake), (5, Stake)], pending := []\<rparr>"
proof
  have "\<not> isPlaying example_session \<and> at_end example_session
      \<and> 2 \<le> length (timelineData example_session)"
    by (simp add: example_session_eq at_end_def example_timeline_def)
  with play_restarts_tick_stops [of example_session 1]
  have "togglePlay example_session =
        example_session\<lparr>isPlaying := True, currentIndex := 1,
          rendered := rendered example_session @ [(0, activeMetric example_session)],
          timer := Some (nextTimer example_session),
          pending := pending example_session
            @ [(nextTimer example_session, playbackSpeed example_session)],
          nextTimer := Suc (nextTimer example_session)\<rparr>"
    by blast
  then show "togglePlay example_session =
     example_session\<lparr>isPlaying := True, currentIndex := 1,
       rendered := [(5, Stake), (0, Stake)], timer := Some 1, pending := [(1, 100)],
       nextTimer := 2\<rparr>"
    by (simp add: example_session_eq)
next
  let ?s = "run [SliderInput 4, TogglePlay] example_session"
  have "isPlaying ?s \<and> timelineData ?s \<noteq> []
      \<and> currentIndex ?s = int (length (timelineData ?s)) - 1 \<and> 1 \<in> fst ` set (pending ?s)"
    by (simp add: example_playing_eq example_timeline_def)
  with play_restarts_tick_stops [of ?s 1]
  have "timerFires 1 ?s =
        ?s\<lparr>isPlaying := False,
          rendered := rendered ?s @ [(currentIndex ?s, activeMetric ?s)],
          pending := filter (\<lambda>p. fst p \<noteq> 1) (pending ?s)\<rparr>"
    by blast
  then show "timerFires 1 ?s = ?s\<lparr>isPlaying := False,
       rendered := [(5, Stake), (4, Stake), (4, Stake), (5, Stake)], pending := []\<rparr>"
    by (simp add: example_playing_eq)
qed

text \<open>
  Claim C6. The slider handler stops playback through the \<open>isPlaying\<close> flag only: it
  never calls \<open>clearTimeout\<close>, so the tick scheduled before the seek stays registered
  (\<open>stop\<close> and the pause branch of \<open>togglePlay\<close> do clear it). In the session below,
  playback is started, the slider is moved to frame 2 and playback is started again
  before timer 1 has fired. Timer 1, scheduled before the seek, then draws frame 3 and
  schedules a further tick, next to the tick of the second start.
\<close>

theorem seek_leaves_tick_pending:
  "pending (run [TogglePlay, SliderInput 2] example_session) = [(1, 100)]
   \<and> pending (run [TogglePlay, Stop] example_session) = []
   \<and> pending (run [TogglePlay, TogglePlay] example_session) = []
   \<and> rendered (run [TogglePlay, SliderInput 2, TogglePlay] example_session)
       = [(5, Stake), (0, Stake), (2, Stake), (2, Stake)]
   \<and> rendered (run [TogglePlay, SliderInput 2, TogglePlay, TimerFires 1] example_session)
       = [(5, Stake), (0, Stake), (2, Stake), (2, Stake), (3, Stake)]
   \<and> currentIndex (run [TogglePlay, SliderInput 2, TogglePlay, TimerFires 1] example_session)
       = 4
   \<and> pending (run [TogglePlay, SliderInput 2, TogglePlay, TimerFires 1] example_session)
       = [(2, 100), (3, 100)]"
  by (simp add: example_session_eq run_def sliderInput_def togglePlay_def loop_def stop_def
      timerFires_def setTimeout_def clearTimeout_def at_end_def renderFrame_def frame_at_def
      Let_def example_timeline_def)

text \<open>
  Claim C7 says that an index outside the timeline is clamped and the clamped frame drawn.
  With six frames loaded, the slider value 9 is stored as it is and nothing is drawn; the
  same holds for a render at index \<open>-1\<close>.
\<close>

theorem seek_out_of_range_not_clamped:
  "currentIndex (sliderInput 9 example_session) = 9
   \<and> rendered (sliderInput 9 example_session) = rendered example_session
   \<and> int (length (timelineData example_session)) - 1 = 5
   \<and> renderFrame (- 1) example_session = example_session"
  by (simp add: example_session_eq sliderInput_def renderFrame_def frame_at_def
      example_timeline_def)

text \<open>
  Claim C7, as the code has it. No playback operation raises for any index. An index
  outside the timeline is not clamped: \<open>renderFrame\<close> returns at once and draws
  nothing, and the slider handler stops playback and stores the index as it came. An index
  inside the timeline is drawn immediately.
\<close>

theorem seek_renders_or_skips:
  "renderFrame v s =
     (if 0 \<le> v \<and> v < int (length (timelineData s))
      then s\<lparr>rendered := rendered s @ [(v, activeMetric s)]\<rparr> else s)
   \<and> sliderInput v s =
     (if 0 \<le> v \<and> v < int (length (timelineData s))
      then s\<lparr>isPlaying := False, currentIndex := v,
             rendered := rendered s @ [(v, activeMetric s)]\<rparr>
      else s\<lparr>isPlaying := False, currentIndex := v\<rparr>)"
  by (simp add: sliderInput_def renderFrame_def frame_at_def)

theorem seek_renders_or_skips_witness:
  "sliderInput 3 example_session =
     example_session\<lparr>isPlaying := False, currentIndex := 3,
       rendered := [(5, Stake), (3, Stake)]\<rparr>
   \<and> sliderInput 6 example_session = example_session\<lparr>isPlaying := False, currentIndex := 6\<rparr>"
  using seek_renders_or_skips [of 3 example_session]
    seek_renders_or_skips [of 6 example_session]
  by (simp add: example_session_eq example_timeline_def)

lemma playbackSpeed_renderFrame: "playbackSpeed (renderFrame i s) = playbackSpeed s"
  by (simp add: renderFrame_def split: option.splits)

lemma playbackSpeed_loop: "playbackSpeed (loop s) = playbackSpeed s"
  by (simp add: loop_def Let_def setTimeout_def playbackSpeed_renderFrame)

lemma playbackSpeed_step:
  "playbackSpeed s \<in> {30, 100} \<Longrightarrow> playbackSpeed (step ev s) \<in> {30, 100}"
  by (cases ev)
     (auto simp: togglePlay_def timerFires_def sliderInput_def stop_def setMetric_def
        toggleSpeed_def resetUI_def loaded_def toggleFilter_def refiltered_def Let_def
        clearTimeout_def playbackSpeed_loop playbackSpeed_renderFrame
        split: option.splits)

lemma reachable_speed: "reachable s \<Longrightarrow> playbackSpeed s \<in> {30, 100}"
proof (induction rule: reachable.induct)
  case init
  show ?case by (simp add: initial_state_def)
next
  case (step s ev)
  from step.IH show ?case by (rule playbackSpeed_step)
qed

text \<open>
  Claim C10. In every state a session can reach the playback speed is 100 or 30; the
  speed toggle maps 100 to 30 and 30 to 100, touches no other field of the state, and
  applied twice gives the state back.
\<close>

theorem toggleSpeed_involution:
  assumes "reachable s"
  shows "playbackSpeed s \<in> {30, 100}
       \<and> playbackSpeed (toggleSpeed s) = (if playbackSpeed s = 100 then 30 else 100)
       \<and> toggleSpeed s = s\<lparr>playbackSpeed := playbackSpeed (toggleSpeed s)\<rparr>
       \<and> currentIndex (toggleSpeed s) = currentIndex s
       \<and> isPlaying (toggleSpeed s) = isPlaying s
       \<and> activeMetric (toggleSpeed s) = activeMetric s
       \<and> toggleSpeed (toggleSpeed s) = s"
proof -
  have sp: "playbackSpeed s \<in> {30, 100}"
    using assms by (rule reachable_speed)
  then have "toggleSpeed (toggleSpeed s) = s"
    by (auto simp: toggleSpeed_def)
  with sp show ?thesis
    by (simp add: toggleSpeed_def)
qed

theorem toggleSpeed_involution_witness:
  "playbackSpeed (step ToggleSpeed initial_state) = 30
   \<and> playbackSpeed (toggleSpeed (step ToggleSpeed initial_state)) = 100
   \<and> toggleSpeed (toggleSpeed (step ToggleSpeed initial_state)) = step ToggleSpeed initial_state"
proof -
  have r: "reachable (step ToggleSpeed initial_state)"
    by (rule reachable.step) (rule reachable.init)
  have sp: "playbackSpeed (step ToggleSpeed initial_state) = 30"
    by (simp add: toggleSpeed_def initial_state_def)
  from toggleSpeed_involution [OF r] sp show ?thesis
    by simp
qed

end
